theory Spec2Isabelle
  imports Main "HOL-Library.Word"
begin

section \<open>The measurement harness of samples/performance-test.c\<close>

text \<open>
  The sample program keeps a global table of reception times and two running indices:
  \<^verbatim>\<open>
  #define MAX_TIME_STAMPS 20
  #define MAX_REPS 30
  double sub_time_stamps[MAX_TIME_STAMPS][MAX_REPS];
  size_t n_sub_time_stamps = 0;
  size_t n_sub_reps = 0;
  static unsigned char exit_flag = 0;
  \<close>
  The indices are \<open>size_t\<close> values, modelled as 64-bit words (the program prints them
  with \<open>%lu\<close>). The stored values come from the clock of the library; the model takes
  them as arguments of an arbitrary type with a zero, the initial value of a global.
  A C array access outside its bounds and a dereference of a null pointer have no defined
  behaviour; the model makes both an error value.
\<close>

definition MAX_TIME_STAMPS :: nat where
  "MAX_TIME_STAMPS = 20"

definition MAX_REPS :: nat where
  "MAX_REPS = 30"

record 't harness =
  sub_time_stamps :: "'t list list"
  n_sub_time_stamps :: "64 word"
  n_sub_reps :: "64 word"
  exit_flag :: "8 word"

datatype fault =
    OutOfBounds nat nat    \<comment> \<open>a write to \<open>sub_time_stamps[row][column]\<close> outside the array\<close>
  | NullDereference string \<comment> \<open>a read through the named pointer while it is null\<close>

definition harness_init :: "('t::zero) harness" where
  "harness_init =
     \<lparr>sub_time_stamps = replicate MAX_TIME_STAMPS (replicate MAX_REPS 0),
      n_sub_time_stamps = 0, n_sub_reps = 0, exit_flag = 0\<rparr>"

text \<open>
  The first statement of both callbacks,
  \<^verbatim>\<open>
  sub_time_stamps[n_sub_time_stamps][n_sub_reps++] = cRosClockTimeStampToUSec(...);
  \<close>
  writes at the current indices and then increments the column index.
\<close>

definition store_time_stamp :: "'t \<Rightarrow> 't harness \<Rightarrow> fault + 't harness" where
  "store_time_stamp ts s =
     (let row = unat (n_sub_time_stamps s); col = unat (n_sub_reps s)
      in if row < MAX_TIME_STAMPS \<and> col < MAX_REPS
         then Inr (s\<lparr>sub_time_stamps :=
                       (sub_time_stamps s)[row := (sub_time_stamps s ! row)[col := ts]],
                     n_sub_reps := n_sub_reps s + 1\<rparr>)
         else Inl (OutOfBounds row col))"

text \<open>
  \<^verbatim>\<open>
  if(n_sub_reps >= MAX_REPS) { n_sub_reps=0; n_sub_time_stamps++; }
  \<close>
\<close>

definition advance_row :: "'t harness \<Rightarrow> 't harness" where
  "advance_row s =
     (if MAX_REPS \<le> unat (n_sub_reps s)
      then s\<lparr>n_sub_reps := 0, n_sub_time_stamps := n_sub_time_stamps s + 1\<rparr>
      else s)"

text \<open>
  \<^verbatim>\<open>
  if(n_sub_time_stamps>=MAX_TIME_STAMPS) exit_flag = 1;
  \<close>
\<close>

definition check_full :: "'t harness \<Rightarrow> 't harness" where
  "check_full s =
     (if MAX_TIME_STAMPS \<le> unat (n_sub_time_stamps s) then s\<lparr>exit_flag := 1\<rparr> else s)"

subsection \<open>Messages\<close>

text \<open>
  A message is used through \<open>cRosMessageGetField(message, name)\<close> only, which returns
  a pointer to the field of that name or \<open>NULL\<close>. The function is not part of the sample;
  a message is therefore represented by the lookup itself, \<open>None\<close> standing for \<open>NULL\<close>.
  Of a field the callbacks use the members \<open>data.as_int64\<close> and \<open>data.as_string\<close> of
  the union \<open>data\<close>; the model keeps them as two fields, and takes \<open>as_string\<close> of a
  field that is present to point to a string.
\<close>

record cRosMessageField =
  as_int64 :: "64 word"
  as_string :: string

type_synonym cRosMessage = "string \<rightharpoonup> cRosMessageField"

definition cRosMessageGetField :: "cRosMessage \<Rightarrow> string \<Rightarrow> cRosMessageField option" where
  "cRosMessageGetField message name = message name"

subsection \<open>The subscriber callback\<close>

text \<open>
  \<open>callback_sub\<close> stores the reception time, advances the indices, reads the field
  \<open>data\<close> (only to print its length, and only when it is present) and raises the exit
  flag once all rows are used. It returns 0; the model returns the printed length
  (if any) beside the new state.
\<close>

definition callback_sub :: "'t \<Rightarrow> cRosMessage \<Rightarrow> 't harness \<Rightarrow> fault + (nat option \<times> 't harness)" where
  "callback_sub ts message s =
     (case store_time_stamp ts s of
        Inl e \<Rightarrow> Inl e
      | Inr s1 \<Rightarrow>
          let s2 = advance_row s1;
              heard = (case cRosMessageGetField message ''data'' of
                         None \<Rightarrow> None
                       | Some data_field \<Rightarrow> Some (length (as_string data_field)))
          in Inr (heard, check_full s2))"

subsection \<open>The service-provider callback\<close>

text \<open>
  \<^verbatim>\<open>
  cRosMessageField *a_field = cRosMessageGetField(request, "a");
  cRosMessageField *b_field = cRosMessageGetField(request, "b");
  if(a_field != NULL && a_field != NULL)
  {
    int64_t a = a_field->data.as_int64;
    int64_t b = b_field->data.as_int64;
    int64_t response_val = a+b;
    cRosMessageField *sum_field = cRosMessageGetField(response, "sum");
    if(sum_field != NULL)
      sum_field->data.as_int64 = response_val;
  }
  \<close>
  The guard tests \<open>a_field\<close> twice, as the source does. A read through a null pointer
  is the fault \<open>NullDereference\<close>. The sum is the 64-bit sum, wrapping around (C leaves
  the overflow of \<open>int64_t\<close> undefined).
\<close>

definition add_two_ints :: "cRosMessage \<Rightarrow> cRosMessage \<Rightarrow> fault + cRosMessage" where
  "add_two_ints request response =
     (let a_field = cRosMessageGetField request ''a'';
          b_field = cRosMessageGetField request ''b''
      in if a_field \<noteq> None \<and> a_field \<noteq> None
         then (case a_field of
                 None \<Rightarrow> Inl (NullDereference ''a_field'')
               | Some af \<Rightarrow>
                   (case b_field of
                      None \<Rightarrow> Inl (NullDereference ''b_field'')
                    | Some bf \<Rightarrow>
                        let response_val = as_int64 af + as_int64 bf
                        in (case cRosMessageGetField response ''sum'' of
                              None \<Rightarrow> Inr response
                            | Some sum_field \<Rightarrow>
                                Inr (response(''sum'' \<mapsto> sum_field\<lparr>as_int64 := response_val\<rparr>)))))
         else Inr response)"

definition callback_provider_add_two_ints ::
  "'t \<Rightarrow> cRosMessage \<Rightarrow> cRosMessage \<Rightarrow> 't harness \<Rightarrow> fault + (cRosMessage \<times> 't harness)" where
  "callback_provider_add_two_ints ts request response s =
     (case store_time_stamp ts s of
        Inl e \<Rightarrow> Inl e
      | Inr s1 \<Rightarrow>
          let s2 = advance_row s1
          in (case add_two_ints request response of
                Inl e \<Rightarrow> Inl e
              | Inr response' \<Rightarrow> Inr (response', check_full s2)))"

text \<open>
  A sequence of callback invocations, as the engine makes them on one harness state:
  each invocation is a reception of a topic message or of a service request. The run
  stops at the first fault.
\<close>

datatype 't invocation =
    Sub 't cRosMessage
  | Provider 't cRosMessage cRosMessage

definition invoke :: "'t invocation \<Rightarrow> 't harness \<Rightarrow> fault + 't harness" where
  "invoke i s =
     (case i of
        Sub ts message \<Rightarrow> map_sum id snd (callback_sub ts message s)
      | Provider ts request response \<Rightarrow>
          map_sum id snd (callback_provider_add_two_ints ts request response s))"

fun invoke_all :: "'t invocation list \<Rightarrow> 't harness \<Rightarrow> fault + 't harness" where
  "invoke_all [] s = Inr s"
| "invoke_all (i # is) s =
     (case invoke i s of Inl e \<Rightarrow> Inl e | Inr s' \<Rightarrow> invoke_all is s')"

section \<open>The exit code of the sample program\<close>

text \<open>
  \<open>main\<close> of samples/performance-test.c reads a mode character, creates the node, waits
  for the master's port, registers one entity according to the mode, runs the mode's
  work and destroys the node. Everything it calls belongs to the library or to the C
  runtime; the model takes the value each call returns from an environment, so a
  statement about \<open>main\<close> holds whatever the library does. The type of error codes
  (\<open>cRosErrCodePack\<close>) and its success value \<open>CROS_SUCCESS_ERR_PACK\<close> are declared
  outside the sample: the type is a parameter \<open>'e\<close> and the success value the argument
  \<open>ok\<close>. The model covers the executions in which every call returns.

  Beside the exit code the model returns the error reports of the run, in order:
  the message of every \<open>cRosPrintErrCodePack\<close> call and of the \<open>printf\<close> calls that
  report a failure (format strings as the source has them, without the final newline).
  Progress messages are left out.
\<close>

definition EXIT_SUCCESS :: int where
  "EXIT_SUCCESS = 0"

definition EXIT_FAILURE :: int where
  "EXIT_FAILURE = 1"

record 'e env =
  getchar :: int                             \<comment> \<open>the character read for the mode, or EOF\<close>
  cRosNodeCreate :: bool                     \<comment> \<open>whether the node returned is not \<open>NULL\<close>\<close>
  cRosWaitPortOpen :: 'e
  sigaction :: "nat \<Rightarrow> int"                 \<comment> \<open>the result of \<open>sigaction\<close> for a signal number\<close>
  errno :: int                               \<comment> \<open>\<open>errno\<close> after a failed \<open>sigaction\<close>\<close>
  cRosApiRegisterSubscriber :: 'e
  cRosApiRegisterServiceProvider :: 'e
  cRosApiRegisterPublisher :: 'e
  cRosApiRegisterServiceCaller :: 'e
  cRosNodeStart :: "nat \<Rightarrow> 'e"               \<comment> \<open>the result of the n-th call (from 0)\<close>
  publisher_data_field :: bool               \<comment> \<open>\<open>data_field != NULL\<close> in mode p\<close>
  caller_fields :: bool                      \<comment> \<open>\<open>a_field != NULL && b_field != NULL\<close> in mode c\<close>
  cRosNodeSendTopicMsg :: "nat \<Rightarrow> nat \<Rightarrow> 'e"  \<comment> \<open>by \<open>pub_count\<close> and \<open>rep_count\<close>\<close>
  cRosNodeServiceCall :: "nat \<Rightarrow> nat \<Rightarrow> 'e"   \<comment> \<open>by \<open>call_count\<close> and \<open>rep_count\<close>\<close>
  exit_flag_read :: "nat \<Rightarrow> 8 word"         \<comment> \<open>\<open>exit_flag\<close> as the n-th test of the outer loop reads it\<close>
  cRosNodeDestroy :: 'e                      \<comment> \<open>the result of the final call\<close>

text \<open>
  \<open>set_signal_handler\<close> (the variant for systems other than Windows) installs the
  handler for \<open>SIGINT\<close> and \<open>SIGTERM\<close>:
  \<^verbatim>\<open>
  if(sigaction(SIGINT, &act, &old_int_signal_handler) == 0 &&
     sigaction(SIGTERM, &act,  &old_term_signal_handler) == 0)
     ret=0;
  else
    {
     ret=errno;
     printf("Error setting termination signal handler. errno=%d\n",ret);
    }
  return(ret);
  \<close>
\<close>

definition SIGINT :: nat where
  "SIGINT = 2"

definition SIGTERM :: nat where
  "SIGTERM = 15"

definition set_signal_handler :: "'e env \<Rightarrow> int \<times> string list" where
  "set_signal_handler env =
     (if sigaction env SIGINT = 0 \<and> sigaction env SIGTERM = 0
      then (0, [])
      else (errno env, [''Error setting termination signal handler. errno=%d'']))"

text \<open>
  The inner loop of modes p and c:
  \<^verbatim>\<open>
  for(rep_count=0;rep_count<MAX_REPS && err_cod == CROS_SUCCESS_ERR_PACK;rep_count++)
  {
    err_cod = cRosNodeSendTopicMsg(node, pubidx, msg, 1000);
    if (err_cod == CROS_SUCCESS_ERR_PACK) printf("Published string %d\n", pub_count);
    else cRosPrintErrCodePack(err_cod, "cRosNodeSendTopicMsg() failed: message not sent");
  }
  \<close>
  and the outer one:
  \<^verbatim>\<open>
  for (pub_count = 0; pub_count < MAX_TIME_STAMPS && err_cod == CROS_SUCCESS_ERR_PACK
         && exit_flag == 0; pub_count++)
  \<close>
  Mode c has the same two loops around \<open>cRosNodeServiceCall\<close>. The loop state is the
  current \<open>err_cod\<close> and the reports so far.
\<close>

function rep_loop ::
  "'e \<Rightarrow> (nat \<Rightarrow> 'e) \<Rightarrow> string \<Rightarrow> nat \<Rightarrow> 'e \<times> string list \<Rightarrow> 'e \<times> string list" where
  "rep_loop ok call failed rep_count (err_cod, out) =
     (if rep_count < MAX_REPS \<and> err_cod = ok
      then let err_cod' = call rep_count
           in rep_loop ok call failed (rep_count + 1)
                (err_cod', if err_cod' = ok then out else out @ [failed])
      else (err_cod, out))"
  by pat_completeness auto
termination
  by (relation "measure (\<lambda>(ok, call, failed, rep_count, st). MAX_REPS - rep_count)") auto

function count_loop ::
  "'e \<Rightarrow> (nat \<Rightarrow> nat \<Rightarrow> 'e) \<Rightarrow> (nat \<Rightarrow> 8 word) \<Rightarrow> string \<Rightarrow> nat \<Rightarrow> 'e \<times> string list
     \<Rightarrow> 'e \<times> string list" where
  "count_loop ok call flag failed count (err_cod, out) =
     (if count < MAX_TIME_STAMPS \<and> err_cod = ok \<and> flag count = 0
      then count_loop ok call flag failed (count + 1)
             (rep_loop ok (call count) failed 0 (err_cod, out))
      else (err_cod, out))"
  by pat_completeness auto
termination
  by (relation "measure (\<lambda>(ok, call, flag, failed, count, st). MAX_TIME_STAMPS - count)") auto

text \<open>
  The part of \<open>main\<close> that depends on the mode. \<open>Inl\<close> is the early
  \<open>return EXIT_FAILURE\<close> after a failed registration (the node is destroyed first, the
  result of that call is not looked at); \<open>Inr\<close> falls through to the common end of
  \<open>main\<close>. Both carry the reports.
\<close>

definition mode_s :: "'e \<Rightarrow> 'e env \<Rightarrow> string list + string list" where
  "mode_s ok env =
     (if cRosApiRegisterSubscriber env \<noteq> ok
      then Inl [''cRosApiRegisterSubscriber() failed; did you run this program one directory above 'rosdb'?'']
      else if cRosNodeStart env 0 \<noteq> ok
      then Inr [''cRosNodeStart() returned an error code'']
      else Inr [])"

definition mode_r :: "'e \<Rightarrow> 'e env \<Rightarrow> string list + string list" where
  "mode_r ok env =
     (if cRosApiRegisterServiceProvider env \<noteq> ok
      then Inl [''cRosApiRegisterServiceProvider() failed; did you run this program one directory above 'rosdb'?'']
      else if cRosNodeStart env 0 \<noteq> ok
      then Inr [''cRosNodeStart() returned an error code'']
      else Inr [])"

definition mode_p :: "'e \<Rightarrow> 'e env \<Rightarrow> string list + string list" where
  "mode_p ok env =
     (if cRosApiRegisterPublisher env \<noteq> ok
      then Inl [''cRosApiRegisterPublisher() failed; did you run this program one directory above 'rosdb'?'']
      else if publisher_data_field env
      then Inr (snd (count_loop ok (cRosNodeSendTopicMsg env) (exit_flag_read env)
                       ''cRosNodeSendTopicMsg() failed: message not sent'' 0
                       (cRosNodeStart env 0, [])))
      else Inr [''Error accessing message fields''])"

definition mode_c :: "'e \<Rightarrow> 'e env \<Rightarrow> string list + string list" where
  "mode_c ok env =
     (if cRosApiRegisterServiceCaller env \<noteq> ok
      then Inl [''cRosApiRegisterServiceCaller() failed; did you run this program one directory above 'rosdb'?'']
      else
        let (out, starts) =
              (if caller_fields env
               then (snd (count_loop ok (cRosNodeServiceCall env) (exit_flag_read env)
                            ''cRosNodeServiceCall() failed: service call not made'' 0
                            (cRosNodeStart env 0, [])), 1)
               else ([''Error accessing message fields''], 0))
        in if cRosNodeStart env starts \<noteq> ok
           then Inr (out @ [''cRosNodeStart() returned an error code''])
           else Inr out)"

text \<open>
  \<open>main\<close> itself. It calls \<open>set_signal_handler\<close> without looking at the result; the
  report of that function is part of the reports of the run. The results of \<open>getcwd\<close>,
  \<open>compute_times\<close> and \<open>store_times\<close> are not looked at by the source either and do not
  appear.
\<close>

definition main :: "'e \<Rightarrow> 'e env \<Rightarrow> int \<times> string list" where
  "main ok env =
     (let op_mode = getchar env
      in if op_mode \<noteq> of_char CHR ''s'' \<and> op_mode \<noteq> of_char CHR ''r'' \<and>
            op_mode \<noteq> of_char CHR ''p'' \<and> op_mode \<noteq> of_char CHR ''c''
         then (EXIT_FAILURE, [''Invalid option''])
         else if \<not> cRosNodeCreate env
         then (EXIT_FAILURE, [''cRosNodeCreate() failed; is this program already being run?''])
         else if cRosWaitPortOpen env \<noteq> ok
         then (EXIT_FAILURE, [''Port %s:%hu cannot be opened: ROS Master does not seems to be running''])
         else
           let sig_out = snd (set_signal_handler env)
           in (case (if op_mode = of_char CHR ''s'' then mode_s ok env
                     else if op_mode = of_char CHR ''r'' then mode_r ok env
                     else if op_mode = of_char CHR ''p'' then mode_p ok env
                     else mode_c ok env) of
                 Inl out \<Rightarrow> (EXIT_FAILURE, sig_out @ out)
               | Inr out \<Rightarrow>
                   if cRosNodeDestroy env \<noteq> ok
                   then (EXIT_FAILURE,
                         sig_out @ out @
                         [''cRosNodeDestroy() failed; Error unregistering from ROS master''])
                   else (EXIT_SUCCESS, sig_out @ out)))"

text \<open>Two environments: one in which every call succeeds, and the same with a failing engine run.\<close>

definition env_all_ok :: "nat env" where
  "env_all_ok =
     \<lparr>getchar = of_char CHR ''s'', cRosNodeCreate = True, cRosWaitPortOpen = 0,
      sigaction = (\<lambda>sig. 0), errno = 0,
      cRosApiRegisterSubscriber = 0, cRosApiRegisterServiceProvider = 0,
      cRosApiRegisterPublisher = 0, cRosApiRegisterServiceCaller = 0,
      cRosNodeStart = (\<lambda>n. 0), publisher_data_field = True, caller_fields = True,
      cRosNodeSendTopicMsg = (\<lambda>i j. 0), cRosNodeServiceCall = (\<lambda>i j. 0),
      exit_flag_read = (\<lambda>n. 0), cRosNodeDestroy = 0\<rparr>"

definition env_start_fails :: "nat env" where
  "env_start_fails = env_all_ok\<lparr>cRosNodeStart := (\<lambda>n. 1)\<rparr>"

section \<open>The queue of API calls\<close>

text \<open>
  include/cros_api_call.h declares the queue as a singly linked list with a head, a tail
  and a count:
  \<^verbatim>\<open>
  struct ApiCallNode  { RosApiCall *call; ApiCallNode* next; };
  struct ApiCallQueue { ApiCallNode* head; ApiCallNode* tail; size_t count; };
  \<close>
  Nodes live in a store, a map from addresses to nodes; a pointer is an address or
  \<open>None\<close> for \<open>NULL\<close>. The queue never looks into a call, so the type of calls is a
  parameter. The field \<open>next\<close> is written \<open>nextp\<close>. The count is a natural number: it
  counts allocated nodes and cannot wrap before memory is exhausted.
\<close>

type_synonym addr = nat

record 'c ApiCallNode =
  call :: 'c
  nextp :: "addr option"

record ApiCallQueue =
  head :: "addr option"
  tail :: "addr option"
  count :: nat

record 'c store =
  nodes :: "addr \<rightharpoonup> 'c ApiCallNode"
  queue :: ApiCallQueue

datatype pointer_fault = NullPointer | DanglingPointer addr

text \<open>
  Modelled from the spec: the body of \<open>initApiCallQueue\<close> (cros_api_call.c is not among
  the sources; the header declares the function). The spec: a queue is
  "empty iff \<open>head == nil\<close>" and its count is the number of nodes reachable from the head;
  the initial queue is the empty one.
\<close>

definition initApiCallQueue :: "'c store \<Rightarrow> 'c store" where
  "initApiCallQueue s = s\<lparr>queue := \<lparr>head = None, tail = None, count = 0\<rparr>\<rparr>"

text \<open>
  Modelled from the spec: the body of \<open>enqueueApiCall\<close> (declared in the header, defined
  in the absent cros_api_call.c). The spec: "\<open>enqueue(call)\<close> appends, O(1)" to a
  "singly-linked FIFO" with "\<open>tail->next == nil\<close>": the new node becomes the successor of
  the tail node and the new tail, or the only node of an empty queue. The argument
  \<open>node\<close> is the address the allocator returns for the new node. The \<open>int\<close> result is
  not modelled.
\<close>

definition enqueueApiCall :: "addr \<Rightarrow> 'c \<Rightarrow> 'c store \<Rightarrow> pointer_fault + 'c store" where
  "enqueueApiCall node apiCall s =
     (let q = queue s;
          h = (nodes s)(node \<mapsto> \<lparr>call = apiCall, nextp = None\<rparr>)
      in case head q of
           None \<Rightarrow>
             Inr (s\<lparr>nodes := h,
                    queue := q\<lparr>head := Some node, tail := Some node, count := count q + 1\<rparr>\<rparr>)
         | Some _ \<Rightarrow>
             (case tail q of
                None \<Rightarrow> Inl NullPointer
              | Some t \<Rightarrow>
                  (case h t of
                     None \<Rightarrow> Inl (DanglingPointer t)
                   | Some last_node \<Rightarrow>
                       Inr (s\<lparr>nodes := h(t \<mapsto> last_node\<lparr>nextp := Some node\<rparr>),
                              queue := q\<lparr>tail := Some node, count := count q + 1\<rparr>\<rparr>))))"

text \<open>
  Modelled from the spec: the body of \<open>dequeueApiCall\<close> (declared in the header, defined
  in the absent cros_api_call.c). The spec: "\<open>dequeue()\<close> pops the head": the head node
  is unlinked and freed and its call returned; on an empty queue the result is \<open>NULL\<close>
  and nothing changes.
\<close>

definition dequeueApiCall :: "'c store \<Rightarrow> pointer_fault + ('c option \<times> 'c store)" where
  "dequeueApiCall s =
     (let q = queue s
      in case head q of
           None \<Rightarrow> Inr (None, s)
         | Some p \<Rightarrow>
             (case nodes s p of
                None \<Rightarrow> Inl (DanglingPointer p)
              | Some first_node \<Rightarrow>
                  Inr (Some (call first_node),
                       s\<lparr>nodes := (nodes s)(p := None),
                         queue := q\<lparr>head := nextp first_node,
                                    tail := (if nextp first_node = None then None else tail q),
                                    count := count q - 1\<rparr>\<rparr>)))"

text \<open>
  \<open>chain h x ps\<close>: following \<open>nextp\<close> from the pointer \<open>x\<close> visits exactly the nodes
  \<open>ps\<close>, in this order, and then reaches \<open>NULL\<close>.
\<close>

fun chain :: "(addr \<rightharpoonup> 'c ApiCallNode) \<Rightarrow> addr option \<Rightarrow> addr list \<Rightarrow> bool" where
  "chain h x [] = (x = None)"
| "chain h x (p # ps) =
     (x = Some p \<and> (case h p of None \<Rightarrow> False | Some n \<Rightarrow> chain h (nextp n) ps))"

text \<open>
  The states a sequence of queue operations reaches. The queue structure may hold
  anything before \<open>initApiCallQueue\<close>; the allocator returns an address that is not in
  use.
\<close>

inductive reachable :: "'c store \<Rightarrow> bool" where
  after_init: "reachable (initApiCallQueue s)"
| after_enqueue:
    "reachable s \<Longrightarrow> node \<notin> dom (nodes s) \<Longrightarrow> enqueueApiCall node apiCall s = Inr s'
       \<Longrightarrow> reachable s'"
| after_dequeue:
    "reachable s \<Longrightarrow> dequeueApiCall s = Inr (r, s') \<Longrightarrow> reachable s'"

definition queue_inv :: "'c store \<Rightarrow> addr list \<Rightarrow> bool" where
  "queue_inv s ps =
     (chain (nodes s) (head (queue s)) ps \<and> distinct ps \<and> count (queue s) = length ps \<and>
      tail (queue s) = (if ps = [] then None else Some (last ps)))"

text \<open>
  A store whose queue structure is not initialised, and the store after
  \<open>initApiCallQueue\<close>, two \<open>enqueueApiCall\<close> (calls 10 and 20 in nodes 1 and 2) and one
  \<open>dequeueApiCall\<close>.
\<close>

definition store_raw :: "nat store" where
  "store_raw = \<lparr>nodes = Map.empty, queue = \<lparr>head = Some 7, tail = None, count = 3\<rparr>\<rparr>"

definition store_one_left :: "nat store" where
  "store_one_left =
     \<lparr>nodes = [2 \<mapsto> \<lparr>call = 20, nextp = None\<rparr>],
      queue = \<lparr>head = Some 2, tail = Some 2, count = 1\<rparr>\<rparr>"

section \<open>Properties of the harness callbacks\<close>

lemma invoke_all_append:
  "invoke_all (xs @ ys) s =
     (case invoke_all xs s of Inl e \<Rightarrow> Inl e | Inr s' \<Rightarrow> invoke_all ys s')"
  by (induction xs arbitrary: s) (auto split: sum.splits)

lemma unat_reps_succ:
  "unat (n_sub_reps s) < MAX_REPS \<Longrightarrow> unat (n_sub_reps s + 1) = unat (n_sub_reps s) + 1"
  by (simp add: MAX_REPS_def unat_word_ariths)

lemma unat_stamps_succ:
  "unat (n_sub_time_stamps s) < MAX_TIME_STAMPS \<Longrightarrow>
   unat (n_sub_time_stamps s + 1) = unat (n_sub_time_stamps s) + 1"
  by (simp add: MAX_TIME_STAMPS_def unat_word_ariths)

text \<open>Inside the table a reception is stored and the indices move on, row by row.\<close>

lemma invoke_sub_in_range:
  assumes r: "unat (n_sub_time_stamps s) < MAX_TIME_STAMPS"
    and c: "unat (n_sub_reps s) < MAX_REPS"
  shows "\<exists>s'. invoke (Sub ts m) s = Inr s' \<and>
           n_sub_reps s' = (if unat (n_sub_reps s) + 1 = MAX_REPS then 0 else n_sub_reps s + 1) \<and>
           n_sub_time_stamps s' =
             (if unat (n_sub_reps s) + 1 = MAX_REPS then n_sub_time_stamps s + 1
              else n_sub_time_stamps s)"
  using r c unat_reps_succ [OF c]
  by (auto simp: invoke_def callback_sub_def store_time_stamp_def advance_row_def
      check_full_def Let_def)

text \<open>Past the last row the callback writes outside the table.\<close>

lemma invoke_sub_out_of_range:
  assumes "\<not> unat (n_sub_time_stamps s) < MAX_TIME_STAMPS"
  shows "invoke (Sub ts m) s =
           Inl (OutOfBounds (unat (n_sub_time_stamps s)) (unat (n_sub_reps s)))"
  using assms by (simp add: invoke_def callback_sub_def store_time_stamp_def Let_def)

lemma invoke_provider_out_of_range:
  assumes "\<not> unat (n_sub_time_stamps s) < MAX_TIME_STAMPS"
  shows "invoke (Provider ts request response) s =
           Inl (OutOfBounds (unat (n_sub_time_stamps s)) (unat (n_sub_reps s)))"
  using assms
  by (simp add: invoke_def callback_provider_add_two_ints_def store_time_stamp_def Let_def)

text \<open>
  The column index stays inside a row: the half of the bound that the callbacks keep,
  whatever the number of invocations.
\<close>

lemma column_index_bounded:
  assumes "unat (n_sub_reps s) < MAX_REPS" and "invoke i s = Inr s'"
  shows "unat (n_sub_reps s') < MAX_REPS"
proof -
  have st: "store_time_stamp ts s = Inr s1 \<Longrightarrow> unat (n_sub_reps (check_full (advance_row s1))) < MAX_REPS"
    for ts and s1 :: "'a harness"
    using assms(1) unat_reps_succ [OF assms(1)]
    by (auto simp: store_time_stamp_def advance_row_def check_full_def Let_def MAX_REPS_def
        split: if_splits)
  show ?thesis
  proof (cases i)
    case (Sub ts m)
    then show ?thesis using assms(2) st [of ts]
      by (auto simp: invoke_def callback_sub_def Let_def split: sum.splits)
  next
    case (Provider ts request response)
    then show ?thesis using assms(2) st [of ts]
      by (auto simp: invoke_def callback_provider_add_two_ints_def Let_def split: sum.splits)
  qed
qed

text \<open>
  From the initial state, the first \<open>MAX_TIME_STAMPS * MAX_REPS\<close> receptions are stored
  in the table; after \<open>k\<close> of them the indices are \<open>k div MAX_REPS\<close> and \<open>k mod MAX_REPS\<close>.
\<close>

lemma sub_prefix_stored:
  "k \<le> MAX_TIME_STAMPS * MAX_REPS \<Longrightarrow>
   \<exists>s. invoke_all (replicate k (Sub ts m)) (harness_init :: ('t::zero) harness) = Inr s \<and>
       unat (n_sub_time_stamps s) = k div MAX_REPS \<and> unat (n_sub_reps s) = k mod MAX_REPS"
proof (induction k)
  case 0
  then show ?case by (simp add: harness_init_def)
next
  case (Suc k)
  then obtain s where s: "invoke_all (replicate k (Sub ts m)) (harness_init :: 't harness) = Inr s"
    and r: "unat (n_sub_time_stamps s) = k div MAX_REPS"
    and c: "unat (n_sub_reps s) = k mod MAX_REPS"
    by auto
  have k: "k < MAX_TIME_STAMPS * MAX_REPS" using Suc.prems by simp
  have r': "unat (n_sub_time_stamps s) < MAX_TIME_STAMPS"
    using k r by (simp add: MAX_REPS_def MAX_TIME_STAMPS_def)
  have c': "unat (n_sub_reps s) < MAX_REPS" using c by (simp add: MAX_REPS_def)
  obtain s' where s': "invoke (Sub ts m) s = Inr s'"
    and c2: "n_sub_reps s' = (if unat (n_sub_reps s) + 1 = MAX_REPS then 0 else n_sub_reps s + 1)"
    and r2: "n_sub_time_stamps s' =
               (if unat (n_sub_reps s) + 1 = MAX_REPS then n_sub_time_stamps s + 1
                else n_sub_time_stamps s)"
    using invoke_sub_in_range [OF r' c'] by blast
  have run: "invoke_all (replicate (Suc k) (Sub ts m)) (harness_init :: 't harness) = Inr s'"
  proof -
    have "replicate (Suc k) (Sub ts m) = replicate k (Sub ts m) @ [Sub ts m]"
      by (simp add: replicate_append_same)
    then show ?thesis using s s' by (simp only: invoke_all_append) simp
  qed
  have "unat (n_sub_time_stamps s') = Suc k div MAX_REPS \<and>
        unat (n_sub_reps s') = Suc k mod MAX_REPS"
  proof (cases "unat (n_sub_reps s) + 1 = MAX_REPS")
    case True
    then have "Suc k mod MAX_REPS = 0" "Suc k div MAX_REPS = k div MAX_REPS + 1"
      using c by (auto simp: MAX_REPS_def mod_Suc div_Suc)
    then show ?thesis using True c2 r2 unat_stamps_succ [OF r'] r by simp
  next
    case False
    then have "Suc k mod MAX_REPS = k mod MAX_REPS + 1" "Suc k div MAX_REPS = k div MAX_REPS"
      using c c' by (auto simp: MAX_REPS_def mod_Suc div_Suc)
    then show ?thesis using False c2 r2 unat_reps_succ [OF c'] r c by simp
  qed
  then show ?case using run by blast
qed

text \<open>
  Claim C9 (harness timestamp-array bounds: no invocation of the callbacks writes outside
  \<open>sub_time_stamps\<close>). The code does not keep this bound. From the initial state, 600
  receptions fill the table and leave the row index at \<open>MAX_TIME_STAMPS = 20\<close>; the
  callback only raises the exit flag then, and the next reception writes
  \<open>sub_time_stamps[20][0]\<close>, one row past the end of the table.
\<close>

theorem callback_sub_writes_past_table:
  "invoke_all (replicate 600 (Sub ts m) @ [Sub ts' m']) (harness_init :: ('t::zero) harness)
     = Inl (OutOfBounds 20 0)"
proof -
  obtain s where s: "invoke_all (replicate 600 (Sub ts m)) (harness_init :: 't harness) = Inr s"
    and r: "unat (n_sub_time_stamps s) = 600 div MAX_REPS"
    and c: "unat (n_sub_reps s) = 600 mod MAX_REPS"
    using sub_prefix_stored [of 600 ts m] by (auto simp: MAX_REPS_def MAX_TIME_STAMPS_def)
  have "invoke (Sub ts' m') s = Inl (OutOfBounds 20 0)"
    using invoke_sub_out_of_range [of s ts' m'] r c
    by (simp add: MAX_REPS_def MAX_TIME_STAMPS_def)
  then show ?thesis using s by (simp add: invoke_all_append)
qed

text \<open>The guard of the service handler does protect the read of field \<open>a\<close>.\<close>

lemma a_field_guarded: "add_two_ints request response \<noteq> Inl (NullDereference ''a_field'')"
  by (simp add: add_two_ints_def Let_def split: option.splits)

text \<open>It does not protect the read of field \<open>b\<close>: any request with \<open>a\<close> and without \<open>b\<close> faults.\<close>

lemma b_field_unguarded:
  assumes "request ''a'' = Some af" and "request ''b'' = None"
  shows "add_two_ints request response = Inl (NullDereference ''b_field'')"
  using assms by (simp add: add_two_ints_def cRosMessageGetField_def)

text \<open>
  Claim C10 (service-handler null guard: \<open>b_field\<close> is never dereferenced while null).
  The code does not keep this: the guard of \<open>callback_provider_add_two_ints\<close> tests
  \<open>a_field\<close> twice and \<open>b_field\<close> never, so a request that has a field \<open>a\<close> and no field
  \<open>b\<close> makes the handler read through the null \<open>b_field\<close>.
\<close>

theorem provider_reads_null_b_field:
  "callback_provider_add_two_ints ts
     [''a'' \<mapsto> \<lparr>as_int64 = 3, as_string = []\<rparr>]
     [''sum'' \<mapsto> \<lparr>as_int64 = 0, as_string = []\<rparr>]
     (harness_init :: ('t::zero) harness)
   = Inl (NullDereference ''b_field'')"
proof -
  have "add_two_ints [''a'' \<mapsto> \<lparr>as_int64 = 3, as_string = []\<rparr>]
          [''sum'' \<mapsto> \<lparr>as_int64 = 0, as_string = []\<rparr>] = Inl (NullDereference ''b_field'')"
    by (rule b_field_unguarded) simp_all
  then show ?thesis
    by (simp add: callback_provider_add_two_ints_def store_time_stamp_def harness_init_def
        MAX_TIME_STAMPS_def MAX_REPS_def Let_def)
qed

section \<open>Properties of the exit code\<close>

text \<open>A mode returns early exactly when its registration fails, and then with a report.\<close>

lemma mode_s_isl: "isl (mode_s ok env) = (cRosApiRegisterSubscriber env \<noteq> ok)"
  by (simp add: mode_s_def)

lemma mode_r_isl: "isl (mode_r ok env) = (cRosApiRegisterServiceProvider env \<noteq> ok)"
  by (simp add: mode_r_def)

lemma mode_p_isl: "isl (mode_p ok env) = (cRosApiRegisterPublisher env \<noteq> ok)"
  by (simp add: mode_p_def)

lemma mode_c_isl: "isl (mode_c ok env) = (cRosApiRegisterServiceCaller env \<noteq> ok)"
  by (simp add: mode_c_def Let_def split: prod.splits)

lemma mode_early_reports:
  "mode_s ok env \<noteq> Inl []" "mode_r ok env \<noteq> Inl []"
  "mode_p ok env \<noteq> Inl []" "mode_c ok env \<noteq> Inl []"
  by (simp_all add: mode_s_def mode_r_def mode_p_def mode_c_def Let_def split: prod.splits)

lemma main_fst:
  "fst (main ok env) =
     (if (getchar env = of_char CHR ''s'' \<and> cRosApiRegisterSubscriber env = ok \<or>
          getchar env = of_char CHR ''r'' \<and> cRosApiRegisterServiceProvider env = ok \<or>
          getchar env = of_char CHR ''p'' \<and> cRosApiRegisterPublisher env = ok \<or>
          getchar env = of_char CHR ''c'' \<and> cRosApiRegisterServiceCaller env = ok) \<and>
         cRosNodeCreate env \<and> cRosWaitPortOpen env = ok \<and> cRosNodeDestroy env = ok
      then EXIT_SUCCESS else EXIT_FAILURE)"
proof -
  have s: "fst (case m of Inl out \<Rightarrow> (EXIT_FAILURE, f out)
                | Inr out \<Rightarrow> if d then (EXIT_FAILURE, g out) else (EXIT_SUCCESS, h out))
             = (if isl m \<or> d then EXIT_FAILURE else EXIT_SUCCESS)"
    for m :: "string list + string list" and d and f g h :: "string list \<Rightarrow> string list"
    by (cases m) auto
  show ?thesis
    unfolding main_def Let_def
    by (simp add: s mode_s_isl mode_r_isl mode_p_isl mode_c_isl)
qed

lemma main_failure_reported:
  assumes a: "fst (main ok env) \<noteq> EXIT_SUCCESS"
  shows "snd (main ok env) \<noteq> []"
proof
  have s: "snd (case m of Inl out \<Rightarrow> (EXIT_FAILURE, u @ out)
                | Inr out \<Rightarrow> if d then (EXIT_FAILURE, u @ out @ [x]) else (EXIT_SUCCESS, u @ out))
             = []
           \<Longrightarrow> m \<noteq> Inl [] \<Longrightarrow>
           fst (case m of Inl out \<Rightarrow> (EXIT_FAILURE, u @ out)
                | Inr out \<Rightarrow> if d then (EXIT_FAILURE, u @ out @ [x]) else (EXIT_SUCCESS, u @ out))
             = EXIT_SUCCESS"
    for m :: "string list + string list" and d u x
    by (cases m) (auto split: if_splits)
  assume e: "snd (main ok env) = []"
  show False
    using a e s mode_early_reports [of ok env]
    unfolding main_def Let_def
    by (auto split: if_splits)
qed

text \<open>
  The exit code does not depend on what \<open>set_signal_handler\<close>, \<open>cRosNodeStart\<close>,
  \<open>cRosNodeSendTopicMsg\<close> and \<open>cRosNodeServiceCall\<close> return, on the exit flag, or on
  whether the message fields are found.
\<close>

lemma main_fst_independent:
  "fst (main ok (env\<lparr>sigaction := sg, errno := en, cRosNodeStart := st,
                       publisher_data_field := pf, caller_fields := cf,
                       cRosNodeSendTopicMsg := sm, cRosNodeServiceCall := sc,
                       exit_flag_read := fl\<rparr>))
     = fst (main ok env)"
  by (simp add: main_fst)

text \<open>
  Whether a failing \<open>cRosNodeStart\<close> is reported depends on the mode: modes s and r and
  the last call of mode c report it; in mode p, and at the first call of mode c, a
  failing call only keeps the loop from running and nothing is printed.
\<close>

lemma mode_p_start_failure_silent:
  "main 0 (env_all_ok\<lparr>getchar := of_char CHR ''p'', cRosNodeStart := (\<lambda>n. 9)\<rparr>) = (0, [])"
proof -
  have "count_loop (0::nat) sm fl failed 0 (9, []) = (9, [])" for sm fl failed
    by (subst count_loop.simps) simp
  then show ?thesis
    by (simp add: main_def env_all_ok_def mode_p_def set_signal_handler_def EXIT_SUCCESS_def)
qed

lemma mode_c_first_start_failure_silent:
  "main 0 (env_all_ok\<lparr>getchar := of_char CHR ''c'',
                        cRosNodeStart := (\<lambda>n. if n = 0 then 9 else 0)\<rparr>) = (0, [])"
proof -
  have "count_loop (0::nat) sc fl failed 0 (9, []) = (9, [])" for sc fl failed
    by (subst count_loop.simps) simp
  then show ?thesis
    by (simp add: main_def env_all_ok_def mode_c_def set_signal_handler_def EXIT_SUCCESS_def)
qed

text \<open>
  Claim C8, amended (exit code of the sample program). \<open>main\<close> returns \<open>EXIT_SUCCESS\<close>,
  which is 0, exactly when the mode character is one of s, r, p, c, the node is
  created, the master's port opens, the registration of the mode succeeds and the final
  \<open>cRosNodeDestroy\<close> succeeds; in every other execution it returns \<open>EXIT_FAILURE\<close>,
  which is not 0, and has printed an error report. The results of
  \<open>set_signal_handler\<close>, \<open>cRosNodeStart\<close>, \<open>cRosNodeSendTopicMsg\<close> and
  \<open>cRosNodeServiceCall\<close>, the exit flag and the presence of the message fields do not
  enter the exit code.
\<close>

theorem main_exit_code:
  "fst (main ok env) =
     (if (getchar env = of_char CHR ''s'' \<and> cRosApiRegisterSubscriber env = ok \<or>
          getchar env = of_char CHR ''r'' \<and> cRosApiRegisterServiceProvider env = ok \<or>
          getchar env = of_char CHR ''p'' \<and> cRosApiRegisterPublisher env = ok \<or>
          getchar env = of_char CHR ''c'' \<and> cRosApiRegisterServiceCaller env = ok) \<and>
         cRosNodeCreate env \<and> cRosWaitPortOpen env = ok \<and> cRosNodeDestroy env = ok
      then EXIT_SUCCESS else EXIT_FAILURE)
   \<and> EXIT_SUCCESS = 0 \<and> EXIT_FAILURE \<noteq> 0
   \<and> (fst (main ok env) \<noteq> EXIT_SUCCESS \<longrightarrow> snd (main ok env) \<noteq> [])
   \<and> fst (main ok (env\<lparr>sigaction := sg, errno := en, cRosNodeStart := st,
                          publisher_data_field := pf, caller_fields := cf,
                          cRosNodeSendTopicMsg := sm, cRosNodeServiceCall := sc,
                          exit_flag_read := fl\<rparr>))
       = fst (main ok env)"
proof -
  have v: "EXIT_SUCCESS = 0 \<and> EXIT_FAILURE \<noteq> 0"
    by (simp add: EXIT_SUCCESS_def EXIT_FAILURE_def)
  have r: "fst (main ok env) \<noteq> EXIT_SUCCESS \<longrightarrow> snd (main ok env) \<noteq> []"
    using main_failure_reported [of ok env] by blast
  show ?thesis
    by (intro conjI main_fst v [THEN conjunct1] v [THEN conjunct2] r main_fst_independent)
qed

text \<open>
  The theorem at three environments: all calls succeed (exit code 0); the final
  \<open>cRosNodeDestroy\<close> fails (exit code 1, with a report); every \<open>cRosNodeStart\<close> fails
  (exit code 0, as when all calls succeed).
\<close>

theorem main_exit_code_witness:
  "fst (main 0 env_all_ok) = 0 \<and>
   fst (main 0 (env_all_ok\<lparr>cRosNodeDestroy := 3\<rparr>)) = 1 \<and>
   snd (main 0 (env_all_ok\<lparr>cRosNodeDestroy := 3\<rparr>)) \<noteq> [] \<and>
   fst (main 0 (env_all_ok\<lparr>cRosNodeStart := (\<lambda>n. 1)\<rparr>)) = fst (main 0 env_all_ok)"
proof -
  have a: "fst (main 0 env_all_ok) = 0"
    using main_exit_code [of 0 env_all_ok]
    by (simp add: env_all_ok_def EXIT_SUCCESS_def EXIT_FAILURE_def)
  have b: "fst (main 0 (env_all_ok\<lparr>cRosNodeDestroy := 3\<rparr>)) = 1 \<and>
           snd (main 0 (env_all_ok\<lparr>cRosNodeDestroy := 3\<rparr>)) \<noteq> []"
    using main_exit_code [of 0 "env_all_ok\<lparr>cRosNodeDestroy := 3\<rparr>"]
    by (simp add: env_all_ok_def EXIT_SUCCESS_def EXIT_FAILURE_def)
  have c: "fst (main 0 (env_all_ok\<lparr>sigaction := sigaction env_all_ok, errno := errno env_all_ok,
             cRosNodeStart := (\<lambda>n. 1),
             publisher_data_field := publisher_data_field env_all_ok,
             caller_fields := caller_fields env_all_ok,
             cRosNodeSendTopicMsg := cRosNodeSendTopicMsg env_all_ok,
             cRosNodeServiceCall := cRosNodeServiceCall env_all_ok,
             exit_flag_read := exit_flag_read env_all_ok\<rparr>)) = fst (main 0 env_all_ok)"
    using main_exit_code [of 0 env_all_ok] by blast
  have "fst (main 0 (env_all_ok\<lparr>cRosNodeStart := (\<lambda>n. 1)\<rparr>)) = fst (main 0 env_all_ok)"
    using c by simp
  then show ?thesis using a b by blast
qed

text \<open>
  Claim C8 as stated fails: in mode s, when \<open>cRosNodeStart\<close> returns an error code, the
  program reports it and still exits with 0.
\<close>

theorem main_exit_code_counterexample:
  "cRosNodeStart env_start_fails 0 \<noteq> 0 \<and>
   fst (main 0 env_start_fails) = 0 \<and>
   snd (main 0 env_start_fails) = [''cRosNodeStart() returned an error code'']"
  by (simp add: main_def env_start_fails_def env_all_ok_def mode_s_def set_signal_handler_def
      EXIT_SUCCESS_def)

section \<open>Properties of the queue\<close>

lemma chain_None [simp]: "chain h None ps = (ps = [])"
  by (cases ps) auto

lemma chain_dom: "chain h x ps \<Longrightarrow> set ps \<subseteq> dom h"
  by (induction ps arbitrary: x) (auto split: option.splits)

lemma chain_unique: "chain h x ps \<Longrightarrow> chain h x qs \<Longrightarrow> qs = ps"
proof (induction ps arbitrary: x qs)
  case Nil
  then show ?case by simp
next
  case (Cons p ps)
  then show ?case by (cases qs) (auto split: option.splits)
qed

lemma chain_upd_other: "a \<notin> set ps \<Longrightarrow> chain (h(a := v)) x ps = chain h x ps"
  by (induction ps arbitrary: x) (auto split: option.splits)

lemma chain_last_next:
  "chain h x ps \<Longrightarrow> ps \<noteq> [] \<Longrightarrow> \<exists>n. h (last ps) = Some n \<and> nextp n = None"
  by (induction ps arbitrary: x) (auto split: option.splits)

text \<open>Linking a fresh node behind the last one extends the chain by that node.\<close>

lemma chain_snoc:
  "chain h x (ps @ [t]) \<Longrightarrow> distinct (ps @ [t]) \<Longrightarrow> node \<notin> set (ps @ [t]) \<Longrightarrow> h t = Some n \<Longrightarrow>
   chain (h(node \<mapsto> \<lparr>call = c, nextp = None\<rparr>, t \<mapsto> n\<lparr>nextp := Some node\<rparr>)) x (ps @ [t, node])"
proof (induction ps arbitrary: x)
  case Nil
  then show ?case by auto
next
  case (Cons p ps)
  then show ?case by (auto split: option.splits)
qed

lemma inv_init: "queue_inv (initApiCallQueue s) []"
  by (simp add: queue_inv_def initApiCallQueue_def)

lemma inv_enqueue:
  assumes inv: "queue_inv s ps" and fresh: "node \<notin> dom (nodes s)"
  shows "\<exists>s'. enqueueApiCall node apiCall s = Inr s' \<and> queue_inv s' (ps @ [node])"
proof (cases ps rule: rev_cases)
  case Nil
  then show ?thesis using inv by (simp add: queue_inv_def enqueueApiCall_def Let_def)
next
  case (snoc qs t)
  from inv have ch: "chain (nodes s) (head (queue s)) (qs @ [t])" and d: "distinct (qs @ [t])"
    and tl: "tail (queue s) = Some t" and cnt: "count (queue s) = length (qs @ [t])"
    by (simp_all add: queue_inv_def snoc)
  from chain_dom [OF ch] have "set (qs @ [t]) \<subseteq> dom (nodes s)" .
  then have nin: "node \<notin> set (qs @ [t])" using fresh by blast
  then have ne: "t \<noteq> node" by auto
  from chain_last_next [OF ch] obtain n where n: "nodes s t = Some n" by auto
  obtain y where hd: "head (queue s) = Some y" using ch by (cases qs) auto
  from chain_snoc [OF ch d nin n, of apiCall]
  have "chain ((nodes s)(node \<mapsto> \<lparr>call = apiCall, nextp = None\<rparr>, t \<mapsto> n\<lparr>nextp := Some node\<rparr>))
          (head (queue s)) (qs @ [t, node])" .
  then show ?thesis
    using d nin tl cnt n hd ne
    by (simp add: enqueueApiCall_def Let_def queue_inv_def snoc)
qed

lemma inv_dequeue_empty: "queue_inv s [] \<Longrightarrow> dequeueApiCall s = Inr (None, s)"
  by (simp add: queue_inv_def dequeueApiCall_def Let_def)

lemma inv_dequeue:
  assumes inv: "queue_inv s (p # ps)"
  shows "\<exists>n s'. nodes s p = Some n \<and> dequeueApiCall s = Inr (Some (call n), s') \<and>
           queue_inv s' ps"
proof -
  from inv obtain n where hd: "head (queue s) = Some p" and n: "nodes s p = Some n"
    and ch: "chain (nodes s) (nextp n) ps" and d: "p \<notin> set ps" "distinct ps"
    and cnt: "count (queue s) = Suc (length ps)"
    and tl: "tail (queue s) = Some (last (p # ps))"
    by (auto simp: queue_inv_def split: option.splits)
  have ch': "chain ((nodes s)(p := None)) (nextp n) ps"
    using ch d by (simp add: chain_upd_other)
  have e: "(nextp n = None) = (ps = [])" using ch by (cases ps) auto
  show ?thesis
    using hd n ch' d cnt tl e
    by (auto simp: dequeueApiCall_def Let_def queue_inv_def)
qed

lemma reachable_inv: "reachable s \<Longrightarrow> \<exists>ps. queue_inv s ps"
proof (induction rule: reachable.induct)
  case (after_init s)
  then show ?case using inv_init by blast
next
  case (after_enqueue s node apiCall s')
  then obtain ps where "queue_inv s ps" by blast
  from inv_enqueue [OF this after_enqueue.hyps(2), of apiCall] after_enqueue.hyps(3)
  show ?case by auto
next
  case (after_dequeue s r s')
  then obtain ps where inv: "queue_inv s ps" by blast
  show ?case
  proof (cases ps)
    case Nil
    then show ?thesis using inv inv_dequeue_empty [of s] after_dequeue.hyps(2) by auto
  next
    case (Cons p qs)
    then show ?thesis using inv inv_dequeue [of s p qs] after_dequeue.hyps(2) by auto
  qed
qed

text \<open>No operation on a reachable state follows a null or dangling pointer.\<close>

lemma reachable_no_fault:
  assumes "reachable s"
  shows "(node \<notin> dom (nodes s) \<longrightarrow> (\<exists>s'. enqueueApiCall node apiCall s = Inr s')) \<and>
         (\<exists>r s'. dequeueApiCall s = Inr (r, s'))"
proof -
  from reachable_inv [OF assms] obtain ps where inv: "queue_inv s ps" ..
  have "\<exists>r s'. dequeueApiCall s = Inr (r, s')"
  proof (cases ps)
    case Nil
    then show ?thesis using inv inv_dequeue_empty [of s] by auto
  next
    case (Cons p qs)
    then show ?thesis using inv inv_dequeue [of s p qs] by auto
  qed
  then show ?thesis using inv_enqueue [OF inv, of node apiCall] by blast
qed

text \<open>
  Claim C1 (queue integrity). In every state that a sequence of \<open>initApiCallQueue\<close>,
  \<open>enqueueApiCall\<close> and \<open>dequeueApiCall\<close> reaches, the nodes reachable from \<open>head\<close> form
  one list \<open>ps\<close> ending in nil, \<open>count\<close> is the number of these nodes, a non-empty
  queue has its \<open>tail\<close> at the last of them and \<open>tail->next\<close> is nil, and the queue is
  empty (no node, count 0) if and only if \<open>head\<close> is nil.
\<close>

theorem queue_integrity:
  assumes "reachable s"
  shows "\<exists>ps. chain (nodes s) (head (queue s)) ps \<and>
           (\<forall>qs. chain (nodes s) (head (queue s)) qs \<longrightarrow> qs = ps) \<and>
           count (queue s) = length ps \<and>
           (head (queue s) \<noteq> None \<longrightarrow>
              (\<exists>t n. tail (queue s) = Some t \<and> t = last ps \<and>
                     nodes s t = Some n \<and> nextp n = None)) \<and>
           ((ps = []) = (head (queue s) = None)) \<and>
           ((count (queue s) = 0) = (head (queue s) = None))"
proof -
  from reachable_inv [OF assms] obtain ps where inv: "queue_inv s ps" ..
  then have ch: "chain (nodes s) (head (queue s)) ps" and cnt: "count (queue s) = length ps"
    and tl: "tail (queue s) = (if ps = [] then None else Some (last ps))"
    by (simp_all add: queue_inv_def)
  have e: "(ps = []) = (head (queue s) = None)" using ch by (cases ps) auto
  have u: "\<forall>qs. chain (nodes s) (head (queue s)) qs \<longrightarrow> qs = ps"
    using chain_unique [OF ch] by blast
  have t: "head (queue s) \<noteq> None \<longrightarrow>
          (\<exists>t n. tail (queue s) = Some t \<and> t = last ps \<and> nodes s t = Some n \<and> nextp n = None)"
    using chain_last_next [OF ch] tl e by auto
  have z: "(count (queue s) = 0) = (head (queue s) = None)"
    using cnt e by simp
  have "chain (nodes s) (head (queue s)) ps \<and>
        (\<forall>qs. chain (nodes s) (head (queue s)) qs \<longrightarrow> qs = ps) \<and>
        count (queue s) = length ps \<and>
        (head (queue s) \<noteq> None \<longrightarrow>
           (\<exists>t n. tail (queue s) = Some t \<and> t = last ps \<and>
                  nodes s t = Some n \<and> nextp n = None)) \<and>
        ((ps = []) = (head (queue s) = None)) \<and>
        ((count (queue s) = 0) = (head (queue s) = None))"
    by (intro conjI ch u cnt t e z)
  then show ?thesis ..
qed

text \<open>
  The theorem at the state reached from an uninitialised queue by \<open>initApiCallQueue\<close>,
  two \<open>enqueueApiCall\<close> and one \<open>dequeueApiCall\<close>: one node is left, and \<open>count\<close> is 1.
\<close>

theorem queue_integrity_witness:
  "reachable store_one_left \<and>
   (\<exists>ps. chain (nodes store_one_left) (head (queue store_one_left)) ps \<and>
         count (queue store_one_left) = length ps \<and> length ps = 1)"
proof -
  let ?s0 = "initApiCallQueue store_raw"
  let ?s1 = "\<lparr>nodes = [1 \<mapsto> \<lparr>call = 10, nextp = None\<rparr>],
              queue = \<lparr>head = Some 1, tail = Some 1, count = 1\<rparr>\<rparr> :: nat store"
  let ?s2 = "\<lparr>nodes = [1 \<mapsto> \<lparr>call = 10, nextp = Some 2\<rparr>, 2 \<mapsto> \<lparr>call = 20, nextp = None\<rparr>],
              queue = \<lparr>head = Some 1, tail = Some 2, count = 2\<rparr>\<rparr> :: nat store"
  have r0: "reachable ?s0" by (rule after_init)
  have e1: "enqueueApiCall 1 10 ?s0 = Inr ?s1"
    by (simp add: enqueueApiCall_def initApiCallQueue_def store_raw_def)
  have r1: "reachable ?s1"
    by (rule after_enqueue [OF r0 _ e1]) (simp add: initApiCallQueue_def store_raw_def)
  have e2: "enqueueApiCall 2 20 ?s1 = Inr ?s2"
    by (auto simp: enqueueApiCall_def fun_eq_iff)
  have r2: "reachable ?s2"
    by (rule after_enqueue [OF r1 _ e2]) simp
  have e3: "dequeueApiCall ?s2 = Inr (Some 10, store_one_left)"
    by (auto simp: dequeueApiCall_def store_one_left_def fun_eq_iff)
  have r3: "reachable store_one_left"
    by (rule after_dequeue [OF r2 e3])
  from queue_integrity [OF r3] obtain ps
    where "chain (nodes store_one_left) (head (queue store_one_left)) ps"
      and "count (queue store_one_left) = length ps"
    by blast
  moreover have "count (queue store_one_left) = 1" by (simp add: store_one_left_def)
  ultimately show ?thesis using r3 by auto
qed

end
